theory Spec2Isabelle
  imports Main "HOL-Library.Option_ord"
begin

section \<open>The job table\<close>

text \<open>
  The queue lives in one SQLite table, \<^verbatim>\<open>jobs\<close>, created by \<^verbatim>\<open>initialiseDB\<close> as a
  \<^verbatim>\<open>STRICT\<close> table: \<^verbatim>\<open>id INTEGER PRIMARY KEY\<close>, \<^verbatim>\<open>description TEXT\<close>,
  \<^verbatim>\<open>status INTEGER\<close>, \<^verbatim>\<open>max_attempts\<close>, \<^verbatim>\<open>attempts_remaining\<close>,
  \<^verbatim>\<open>time_limit_seconds INTEGER\<close>, \<^verbatim>\<open>deadline REAL\<close> and \<^verbatim>\<open>error TEXT\<close>.
  A row is a record; the four status codes 1 to 4 of \<^verbatim>\<open>StatusType\<close> are a datatype.
  The integer columns hold integers only (the table is strict, so an insert of another
  number fails), and the numbers of the model are the integers. The columns
  \<^verbatim>\<open>deadline\<close> and \<^verbatim>\<open>error\<close> may hold NULL, written \<open>None\<close>. The field \<^verbatim>\<open>id\<close> is
  called \<open>job_id\<close> here, since \<open>id\<close> is the identity function of HOL. The only
  arithmetic on a column is the decrement of \<^verbatim>\<open>attempts_remaining\<close>, which happens to
  positive values only, so nothing leaves the 64 bits of the store.
\<close>

datatype Status = PENDING | IN_PROGRESS | COMPLETE | FAILED

record Job =
  job_id :: int
  status :: Status
  description :: string
  max_attempts :: int
  attempts_remaining :: int
  time_limit_seconds :: int
  deadline :: "int option"
  error :: "string option"

record JobParams =
  p_description :: string
  p_time_limit_seconds :: int
  p_max_attempts :: int

text \<open>
  The table is the list of its rows in rowid order, which is the order a scan visits them
  in. The primary key keeps the ids distinct.
\<close>

type_synonym db = "Job list"

definition wf_db :: "db \<Rightarrow> bool" where
  "wf_db d = distinct (map job_id d)"

definition find_job :: "db \<Rightarrow> int \<Rightarrow> Job option" where
  "find_job d i = find (\<lambda>r. job_id r = i) d"

text \<open>
  The rows of all ids but one, and what it is for a table to differ from another in the
  row of one id only: that row is the given one, the other rows and the order of the ids
  are the same.
\<close>

definition others :: "int \<Rightarrow> db \<Rightarrow> db" where
  "others i d = filter (\<lambda>r. job_id r \<noteq> i) d"

definition row_replaced :: "db \<Rightarrow> int \<Rightarrow> Job \<Rightarrow> db \<Rightarrow> bool" where
  "row_replaced d i r' d' =
     (find_job d' i = Some r' \<and> others i d' = others i d \<and> map job_id d' = map job_id d)"

definition terminal :: "Job \<Rightarrow> bool" where
  "terminal r = (status r = COMPLETE \<or> status r = FAILED)"

subsection \<open>The store's clock\<close>

text \<open>
  Every deadline is written as \<^verbatim>\<open>unixepoch('now', '+N second')\<close>, the modifier being
  \<^verbatim>\<open>printf('+%d second', time_limit_seconds)\<close> in the two updates and the JavaScript
  template \<^verbatim>\<open>`+${params.time_limit_seconds} second`\<close> in the insert. For an integer
  \<open>N\<close> both give the text \<^verbatim>\<open>+N second\<close>. SQLite's date functions return NULL when a
  modifier is malformed and when the resulting date is outside the years 0000 to 9999:
  a negative \<open>N\<close> is printed behind the fixed plus sign (\<^verbatim>\<open>+-5 second\<close>), which is
  not a number, and the last second of the year 9999 is 253402300799. The clock reading
  \<^verbatim>\<open>unixepoch('now')\<close> itself is the parameter \<open>now\<close> of every operation that reads it.
\<close>

definition unixepoch_max :: int where
  "unixepoch_max = 253402300799"

definition unixepoch_now_plus :: "int \<Rightarrow> int \<Rightarrow> int option" where
  "unixepoch_now_plus now n =
     (if n < 0 then None
      else if unixepoch_max < now + n then None
      else Some (now + n))"

subsection \<open>Statements\<close>

text \<open>
  \<^verbatim>\<open>UPDATE jobs SET ... WHERE w\<close> rewrites every row that satisfies \<open>w\<close> and leaves the
  others; the \<^verbatim>\<open>changes\<close> it reports is the number of rows that satisfied \<open>w\<close>, whether
  or not a value became different.
\<close>

definition sql_update :: "(Job \<Rightarrow> bool) \<Rightarrow> (Job \<Rightarrow> Job) \<Rightarrow> db \<Rightarrow> db" where
  "sql_update w s d = map (\<lambda>r. if w r then s r else r) d"

definition changes :: "(Job \<Rightarrow> bool) \<Rightarrow> db \<Rightarrow> nat" where
  "changes w d = length (filter w d)"

section \<open>getNextJob\<close>

text \<open>
  The claim is one statement: an update of the row whose id the scalar subquery selects,
  returning the row as updated. A row is eligible when it is pending with attempts left,
  or in progress with attempts left and a deadline before the clock; a comparison with a
  NULL deadline is not true.
\<close>

definition eligible :: "int \<Rightarrow> Job \<Rightarrow> bool" where
  "eligible now r =
     ((status r = PENDING \<and> 0 < attempts_remaining r) \<or>
      (status r = IN_PROGRESS
        \<and> (case deadline r of None \<Rightarrow> False | Some t \<Rightarrow> t < now)
        \<and> 0 < attempts_remaining r))"

text \<open>
  \<^verbatim>\<open>ORDER BY deadline DESC LIMIT 1\<close>: a row of the greatest deadline, NULL counting as
  the least value (the order of \<open>int option\<close> puts \<open>None\<close> first). SQL leaves the choice
  among equal deadlines open; the model takes the first such row of the scan, and no
  result below depends on that choice.
\<close>

fun latest :: "Job list \<Rightarrow> Job option" where
  "latest [] = None"
| "latest (r # rs) =
     (case latest rs of
        None \<Rightarrow> Some r
      | Some k \<Rightarrow> if deadline r < deadline k then Some k else Some r)"

definition next_id_query :: "int \<Rightarrow> db \<Rightarrow> int option" where
  "next_id_query now d = map_option job_id (latest (filter (eligible now) d))"

definition lease :: "int \<Rightarrow> Job \<Rightarrow> Job" where
  "lease now r =
     r\<lparr>status := IN_PROGRESS,
       deadline := unixepoch_now_plus now (time_limit_seconds r),
       attempts_remaining := attempts_remaining r - 1\<rparr>"

text \<open>
  When the subquery finds no row its value is NULL, \<^verbatim>\<open>id = NULL\<close> holds of no row and
  nothing is updated. \<^verbatim>\<open>db.get\<close> hands back the first returned row, or
  \<^verbatim>\<open>undefined\<close> when there is none.
\<close>

definition getNextJob :: "int \<Rightarrow> db \<Rightarrow> db \<times> Job option" where
  "getNextJob now d =
     (case next_id_query now d of
        None \<Rightarrow> (d, None)
      | Some i \<Rightarrow>
          (sql_update (\<lambda>r. job_id r = i) (lease now) d,
           (case map (lease now) (filter (\<lambda>r. job_id r = i) d) of
              [] \<Rightarrow> None
            | x # _ \<Rightarrow> Some x)))"

section \<open>failJob and completeJob\<close>

text \<open>
  Both take the row the worker was handed by \<^verbatim>\<open>getNextJob\<close> and resolve to
  \<^verbatim>\<open>this.changes === 1\<close>. \<^verbatim>\<open>failJob\<close> branches on the attempts of that row: with none
  left it marks the job failed where id and attempts match, otherwise it puts the job
  back to pending where the id matches.
\<close>

definition failJob :: "int \<Rightarrow> db \<Rightarrow> Job \<Rightarrow> string \<Rightarrow> db \<times> bool" where
  "failJob now d job reason =
     (if attempts_remaining job \<le> 0 then
        (sql_update
           (\<lambda>r. job_id r = job_id job \<and> attempts_remaining r = attempts_remaining job)
           (\<lambda>r. r\<lparr>status := FAILED, error := Some reason\<rparr>) d,
         changes
           (\<lambda>r. job_id r = job_id job \<and> attempts_remaining r = attempts_remaining job) d = 1)
      else
        (sql_update
           (\<lambda>r. job_id r = job_id job)
           (\<lambda>r. r\<lparr>status := PENDING,
                   deadline := unixepoch_now_plus now (time_limit_seconds r)\<rparr>) d,
         changes (\<lambda>r. job_id r = job_id job) d = 1))"

definition completeJob :: "db \<Rightarrow> Job \<Rightarrow> db \<times> bool" where
  "completeJob d job =
     (sql_update
        (\<lambda>r. job_id r = job_id job \<and> attempts_remaining r = attempts_remaining job)
        (\<lambda>r. r\<lparr>status := COMPLETE\<rparr>) d,
      changes
        (\<lambda>r. job_id r = job_id job \<and> attempts_remaining r = attempts_remaining job) d = 1)"

section \<open>enqueueJob\<close>

text \<open>
  One insert. SQLite gives a new row of an \<^verbatim>\<open>INTEGER PRIMARY KEY\<close> table the id 1 in
  an empty table and the greatest id plus one otherwise; the statement resolves to that
  id (\<^verbatim>\<open>this.lastID\<close>). The column \<^verbatim>\<open>error\<close> is not listed and stays NULL.
\<close>

definition next_rowid :: "db \<Rightarrow> int" where
  "next_rowid d = (if d = [] then 1 else Max (set (map job_id d)) + 1)"

definition new_row :: "int \<Rightarrow> db \<Rightarrow> JobParams \<Rightarrow> Job" where
  "new_row now d params =
     \<lparr>job_id = next_rowid d,
      status = PENDING,
      description = p_description params,
      max_attempts = p_max_attempts params,
      attempts_remaining = p_max_attempts params,
      time_limit_seconds = p_time_limit_seconds params,
      deadline = unixepoch_now_plus now (p_time_limit_seconds params),
      error = None\<rparr>"

text \<open>
  The function itself checks nothing, but the table is strict: the store turns down a
  value that it cannot keep in an \<^verbatim>\<open>INTEGER\<close> column (\<^verbatim>\<open>cannot store REAL value in
  INTEGER column\<close>), the promise is rejected with that error and no row is written. A
  JavaScript number reaches the store as a 64-bit float unless it is a whole number of
  32 bits, and the store takes a float for an integer column only when it is a whole
  number strictly between \<open>-2^63\<close> and \<open>2^63\<close>. The numbers of the model are whole, so
  what is left to check is the range, for the two numbers of the parameters that go into
  integer columns.
\<close>

definition sql_integer :: "int \<Rightarrow> bool" where
  "sql_integer n = (- (2 ^ 63) < n \<and> n < 2 ^ 63)"

definition storable :: "JobParams \<Rightarrow> bool" where
  "storable params =
     (sql_integer (p_max_attempts params) \<and> sql_integer (p_time_limit_seconds params))"

datatype store_error = SQLITE_CONSTRAINT_DATATYPE

definition enqueueJob :: "int \<Rightarrow> db \<Rightarrow> JobParams \<Rightarrow> store_error + db \<times> int" where
  "enqueueJob now d params =
     (if storable params then Inr (d @ [new_row now d params], next_rowid d)
      else Inl SQLITE_CONSTRAINT_DATATYPE)"

section \<open>The worker loop\<close>

text \<open>
  \<^verbatim>\<open>startWorker\<close> repeats: claim a job; run the work function on its description; enqueue
  the follow-up jobs it returned; then call \<^verbatim>\<open>completeJob\<close> when the work function
  returned and \<^verbatim>\<open>failJob\<close> when it threw, in both cases with the row that the claim
  handed out. Several loops share the table, and the statements of all of them, together
  with the inserts of clients, reach the store one at a time: a run is a list of events.
  Each event that reads the clock carries the reading. A statement that the store turns
  down because it is busy changes nothing and is no event; the loop sleeps and claims
  again. An insert that the store turns down for its values is an event that changes
  nothing: \<^verbatim>\<open>startWorker\<close> logs the error of a follow-up job and goes on.
\<close>

datatype event =
  Enqueue int JobParams
| Claim int
| Complete Job
| Fail int Job string

fun step :: "db \<Rightarrow> event \<Rightarrow> db" where
  "step d (Enqueue now p) = (case enqueueJob now d p of Inl err \<Rightarrow> d | Inr x \<Rightarrow> fst x)"
| "step d (Claim now) = fst (getNextJob now d)"
| "step d (Complete job) = fst (completeJob d job)"
| "step d (Fail now job reason) = fst (failJob now d job reason)"

fun exec :: "db \<Rightarrow> event list \<Rightarrow> db" where
  "exec d [] = d"
| "exec d (e # es) = exec (step d e) es"

text \<open>The row an event hands to a worker, and the rows handed out during a run.\<close>

fun handed :: "db \<Rightarrow> event \<Rightarrow> Job list" where
  "handed d (Claim now) = (case snd (getNextJob now d) of None \<Rightarrow> [] | Some j \<Rightarrow> [j])"
| "handed d e = []"

fun granted :: "db \<Rightarrow> event list \<Rightarrow> Job list" where
  "granted d [] = []"
| "granted d (e # es) = handed d e @ granted (step d e) es"

definition leases :: "int \<Rightarrow> db \<Rightarrow> event list \<Rightarrow> nat" where
  "leases i d es = length (filter (\<lambda>j. job_id j = i) (granted d es))"

text \<open>
  A run follows the worker loop when every \<^verbatim>\<open>completeJob\<close> and \<^verbatim>\<open>failJob\<close> is called
  with a row that a claim handed out and that has not been finalised yet: \<open>held\<close> is the
  list of the rows the workers hold at the moment.
\<close>

fun worker_run :: "Job list \<Rightarrow> db \<Rightarrow> event list \<Rightarrow> bool" where
  "worker_run held d [] = True"
| "worker_run held d (Complete job # es) =
     (job \<in> set held \<and> worker_run (remove1 job held) (step d (Complete job)) es)"
| "worker_run held d (Fail now job reason # es) =
     (job \<in> set held \<and> worker_run (remove1 job held) (step d (Fail now job reason)) es)"
| "worker_run held d (e # es) = worker_run (handed d e @ held) (step d e) es"

text \<open>The rows the workers hold after a run.\<close>

fun holding :: "Job list \<Rightarrow> db \<Rightarrow> event list \<Rightarrow> Job list" where
  "holding held d [] = held"
| "holding held d (Complete job # es) = holding (remove1 job held) (step d (Complete job)) es"
| "holding held d (Fail now job reason # es) =
     holding (remove1 job held) (step d (Fail now job reason)) es"
| "holding held d (e # es) = holding (handed d e @ held) (step d e) es"

text \<open>
  What the rows held have to do with the table, in a run that starts with no row held:
  no two of them have the same id and the same number of attempts; each is a row of the
  table as a claim left it, or an older state of such a row, so the row of its id has
  at most its attempts; and where the attempts are equal, the row is not in a terminal
  state.
\<close>

definition held_ok :: "Job list \<Rightarrow> db \<Rightarrow> bool" where
  "held_ok held d =
     (distinct (map (\<lambda>j. (job_id j, attempts_remaining j)) held)
      \<and> (\<forall>j\<in>set held. \<exists>r\<in>set d. job_id r = job_id j
            \<and> attempts_remaining r \<le> attempts_remaining j
            \<and> (attempts_remaining r = attempts_remaining j \<longrightarrow> \<not> terminal r)))"

section \<open>The client\<close>

text \<open>
  \<^verbatim>\<open>createClient\<close> wraps the table for a payload type \<^verbatim>\<open>T\<close>: its jobs are JavaScript
  objects of type \<^verbatim>\<open>T & { time_limit_seconds: number, max_attempts: number }\<close>. An
  object is the list of its properties in insertion order. \<^verbatim>\<open>JSON.stringify\<close> and
  \<^verbatim>\<open>JSON.parse\<close> belong to the JavaScript runtime and are parameters of the model.
\<close>

datatype jsval =
  JNull
| JBool bool
| JNum int
| JStr string
| JArr "jsval list"
| JObj "(string \<times> jsval) list"

type_synonym jsobject = "(string \<times> jsval) list"

definition num_field :: "string \<Rightarrow> jsobject \<Rightarrow> int option" where
  "num_field k ob = (case map_of ob k of Some (JNum n) \<Rightarrow> Some n | _ \<Rightarrow> None)"

text \<open>
  \<^verbatim>\<open>const { time_limit_seconds, max_attempts, ...rest } = params\<close>: the rest is the
  object without the two named properties.
\<close>

definition rest_of :: "jsobject \<Rightarrow> jsobject" where
  "rest_of ob = filter (\<lambda>kv. fst kv \<noteq> ''time_limit_seconds'' \<and> fst kv \<noteq> ''max_attempts'') ob"

text \<open>
  The parameters of the insert: the two numbers read off the object, and a description.
  An object without the two numeric properties is not of the client's type; the result
  is \<open>None\<close> there.
\<close>

definition job_params :: "string \<Rightarrow> jsobject \<Rightarrow> JobParams option" where
  "job_params desc ob =
     (case num_field ''time_limit_seconds'' ob of
        None \<Rightarrow> None
      | Some t \<Rightarrow>
          (case num_field ''max_attempts'' ob of
             None \<Rightarrow> None
           | Some m \<Rightarrow>
               Some \<lparr>p_description = desc, p_time_limit_seconds = t, p_max_attempts = m\<rparr>))"

text \<open>
  The client's \<^verbatim>\<open>enqueueJob\<close> serialises the rest. It does not wait for the insert;
  the result here is what the insert comes to.
\<close>

definition client_enqueueJob ::
  "(jsobject \<Rightarrow> string) \<Rightarrow> int \<Rightarrow> db \<Rightarrow> jsobject \<Rightarrow> (store_error + db \<times> int) option" where
  "client_enqueueJob stringify now d params =
     map_option (enqueueJob now d) (job_params (stringify (rest_of params)) params)"

text \<open>
  The function \<^verbatim>\<open>startWorkers\<close> maps over the follow-up jobs of the work function. It
  takes the object apart in the same way and then serialises \<^verbatim>\<open>jt\<close>, the whole object.
\<close>

definition follow_up :: "(jsobject \<Rightarrow> string) \<Rightarrow> jsobject \<Rightarrow> JobParams option" where
  "follow_up stringify jt = job_params (stringify jt) jt"

text \<open>
  The loop of \<^verbatim>\<open>startWorker\<close> over \<^verbatim>\<open>newJobs\<close>: one insert for each, in order, each
  at its own clock reading.
\<close>

definition enqueue_new_jobs :: "db \<Rightarrow> (int \<times> JobParams) list \<Rightarrow> db" where
  "enqueue_new_jobs d new_jobs = exec d (map (\<lambda>tp. Enqueue (fst tp) (snd tp)) new_jobs)"

text \<open>What the work function is called with: \<^verbatim>\<open>JSON.parse(job.description)\<close>.\<close>

definition payload :: "(string \<Rightarrow> jsobject) \<Rightarrow> Job \<Rightarrow> jsobject" where
  "payload parse job = parse (description job)"

section \<open>Sample rows\<close>

text \<open>Rows for the concrete instances below; the clock of the instances reads 130.\<close>

definition row_pending :: Job where
  "row_pending =
     \<lparr>job_id = 1, status = PENDING, description = ''a'', max_attempts = 2,
      attempts_remaining = 2, time_limit_seconds = 60, deadline = Some 100, error = None\<rparr>"

definition row_complete :: Job where
  "row_complete =
     \<lparr>job_id = 2, status = COMPLETE, description = ''b'', max_attempts = 2,
      attempts_remaining = 1, time_limit_seconds = 60, deadline = Some 90, error = None\<rparr>"

definition row_expired :: Job where
  "row_expired =
     \<lparr>job_id = 3, status = IN_PROGRESS, description = ''c'', max_attempts = 3,
      attempts_remaining = 1, time_limit_seconds = 10, deadline = Some 120, error = None\<rparr>"

definition row_last_attempt :: Job where
  "row_last_attempt =
     \<lparr>job_id = 4, status = IN_PROGRESS, description = ''d'', max_attempts = 1,
      attempts_remaining = 0, time_limit_seconds = 60, deadline = Some 160, error = None\<rparr>"

text \<open>
  The row that \<^verbatim>\<open>enqueueJob\<close> inserts into the empty table for a time limit of \<open>-1\<close>
  and two attempts, after one claim.
\<close>

definition row_negative_limit :: Job where
  "row_negative_limit =
     \<lparr>job_id = 1, status = IN_PROGRESS, description = ''a'', max_attempts = 2,
      attempts_remaining = 1, time_limit_seconds = - 1, deadline = None, error = None\<rparr>"

text \<open>
  A job with the time limit 0, enqueued into the empty table, and its row with a given
  status, number of attempts left and deadline.
\<close>

definition zero_limit_params :: "int \<Rightarrow> JobParams" where
  "zero_limit_params m = \<lparr>p_description = ''a'', p_time_limit_seconds = 0, p_max_attempts = m\<rparr>"

definition zero_limit_row :: "int \<Rightarrow> Status \<Rightarrow> int \<Rightarrow> int \<Rightarrow> Job" where
  "zero_limit_row m s k t =
     \<lparr>job_id = 1, status = s, description = ''a'', max_attempts = m,
      attempts_remaining = k, time_limit_seconds = 0, deadline = Some t, error = None\<rparr>"

text \<open>
  A job object of the client, as in the example of the repository, and stand-ins for the
  two JSON functions on it: the text lists the names of the properties, and reading it
  back tells the whole object from its rest.
\<close>

definition hello_job :: jsobject where
  "hello_job =
     [(''name'', JStr ''Hello''), (''id'', JNum 1),
      (''max_attempts'', JNum 10), (''time_limit_seconds'', JNum 1)]"

definition property_names :: "jsobject \<Rightarrow> string" where
  "property_names ob = concat (map (\<lambda>kv. fst kv @ '' '') ob)"

definition parse_names :: "string \<Rightarrow> jsobject" where
  "parse_names s = (if s = property_names hello_job then hello_job else rest_of hello_job)"

lemmas sample_rows =
  row_pending_def row_complete_def row_expired_def row_last_attempt_def row_negative_limit_def
  zero_limit_params_def zero_limit_row_def

section \<open>Lemmas on rows and statements\<close>

text \<open>
  The definitions are evaluated on concrete tables by unfolding them.
\<close>

lemmas run_defs = wf_db_def find_job_def others_def row_replaced_def unixepoch_max_def
  unixepoch_now_plus_def sql_update_def changes_def eligible_def next_id_query_def lease_def
  getNextJob_def failJob_def completeJob_def next_rowid_def new_row_def sql_integer_def
  storable_def enqueueJob_def

lemmas client_defs = num_field_def rest_of_def job_params_def client_enqueueJob_def
  follow_up_def enqueue_new_jobs_def payload_def hello_job_def property_names_def parse_names_def

lemma map_job_id_sql_update:
  "(\<And>r. job_id (s r) = job_id r) \<Longrightarrow> map job_id (sql_update w s d) = map job_id d"
  by (induction d) (simp_all add: sql_update_def)

lemma find_job_sql_update:
  "(\<And>r. job_id (s r) = job_id r) \<Longrightarrow>
   find_job (sql_update w s d) i = map_option (\<lambda>r. if w r then s r else r) (find_job d i)"
  by (induction d) (simp_all add: sql_update_def find_job_def)

lemma others_sql_update:
  "(\<And>r. job_id (s r) = job_id r) \<Longrightarrow> (\<And>r. w r \<Longrightarrow> job_id r = i) \<Longrightarrow>
   others i (sql_update w s d) = others i d"
  by (induction d) (auto simp: sql_update_def others_def)

lemma sql_update_none: "(\<And>r. r \<in> set d \<Longrightarrow> \<not> w r) \<Longrightarrow> sql_update w s d = d"
  by (induction d) (simp_all add: sql_update_def)

lemma find_job_Some_iff:
  "wf_db d \<Longrightarrow> find_job d i = Some r \<longleftrightarrow> r \<in> set d \<and> job_id r = i"
  by (induction d) (auto simp: wf_db_def find_job_def image_iff)

lemma find_job_None_iff: "find_job d i = None \<longleftrightarrow> (\<forall>r\<in>set d. job_id r \<noteq> i)"
  by (induction d) (auto simp: find_job_def)

lemma wf_db_unique:
  "wf_db d \<Longrightarrow> q \<in> set d \<Longrightarrow> r \<in> set d \<Longrightarrow> job_id q = job_id r \<Longrightarrow> q = r"
  using find_job_Some_iff [of d "job_id r" q] find_job_Some_iff [of d "job_id r" r] by simp

lemma find_job_in: "find_job d i = Some r \<Longrightarrow> r \<in> set d \<and> job_id r = i"
  by (induction d) (auto simp: find_job_def split: if_splits)

lemma filter_key:
  "wf_db d \<Longrightarrow>
   filter (\<lambda>r. job_id r = i) d = (case find_job d i of None \<Rightarrow> [] | Some r \<Rightarrow> [r])"
proof (induction d)
  case Nil
  then show ?case by (simp add: find_job_def)
next
  case (Cons a d)
  have wf: "wf_db d" and fresh: "job_id a \<notin> job_id ` set d"
    using Cons.prems by (simp_all add: wf_db_def)
  show ?case
  proof (cases "job_id a = i")
    case True
    then have "filter (\<lambda>r. job_id r = i) d = []"
      using fresh by (auto simp: filter_empty_conv image_iff)
    with True show ?thesis by (simp add: find_job_def)
  next
    case False
    with Cons.IH [OF wf] show ?thesis by (simp add: find_job_def)
  qed
qed

lemma changes_key:
  "wf_db d \<Longrightarrow>
   changes (\<lambda>r. job_id r = i \<and> P r) d =
     (case find_job d i of None \<Rightarrow> 0 | Some r \<Rightarrow> if P r then 1 else 0)"
proof -
  assume wf: "wf_db d"
  have "filter (\<lambda>r. job_id r = i \<and> P r) d = filter P (filter (\<lambda>r. job_id r = i) d)"
    by (simp add: conj_commute)
  then show ?thesis
    by (simp add: changes_def filter_key [OF wf] split: option.split)
qed

lemma changes_id:
  "wf_db d \<Longrightarrow>
   changes (\<lambda>r. job_id r = i) d = (case find_job d i of None \<Rightarrow> 0 | Some r \<Rightarrow> 1)"
  using changes_key [of d i "\<lambda>_. True"] by (simp split: option.split)

section \<open>Lemmas on the claim statement\<close>

lemma latest_None: "latest rs = None \<longleftrightarrow> rs = []"
  by (induction rs) (auto split: option.splits)

lemma latest_Some:
  "latest rs = Some k \<Longrightarrow> k \<in> set rs \<and> (\<forall>r\<in>set rs. deadline r \<le> deadline k)"
proof (induction rs arbitrary: k)
  case Nil
  then show ?case by simp
next
  case (Cons a rs)
  then show ?case
    by (fastforce split: option.splits if_splits simp: latest_None)
qed

lemma getNextJob_none:
  assumes "\<forall>r\<in>set d. \<not> eligible now r"
  shows "getNextJob now d = (d, None)"
proof -
  have "filter (eligible now) d = []"
    using assms by (simp add: filter_empty_conv)
  then show ?thesis by (simp add: getNextJob_def next_id_query_def)
qed

lemma getNextJob_some:
  assumes wf: "wf_db d" and ex: "\<exists>r\<in>set d. eligible now r"
  shows "\<exists>r\<in>set d. eligible now r
           \<and> (\<forall>q\<in>set d. eligible now q \<longrightarrow> deadline q \<le> deadline r)
           \<and> getNextJob now d =
               (sql_update (\<lambda>q. job_id q = job_id r) (lease now) d, Some (lease now r))"
proof -
  from ex have "filter (eligible now) d \<noteq> []"
    by (simp add: filter_empty_conv)
  then obtain r where r: "latest (filter (eligible now) d) = Some r"
    using latest_None [of "filter (eligible now) d"] by (cases "latest (filter (eligible now) d)") auto
  from latest_Some [OF r] have mem: "r \<in> set d" and el: "eligible now r"
    and top: "\<forall>q\<in>set d. eligible now q \<longrightarrow> deadline q \<le> deadline r"
    by auto
  from wf mem have "find_job d (job_id r) = Some r"
    by (simp add: find_job_Some_iff)
  then have "filter (\<lambda>q. job_id q = job_id r) d = [r]"
    by (simp add: filter_key [OF wf])
  with r have "getNextJob now d =
      (sql_update (\<lambda>q. job_id q = job_id r) (lease now) d, Some (lease now r))"
    by (simp add: getNextJob_def next_id_query_def)
  with mem el top show ?thesis by blast
qed

lemma job_id_lease [simp]: "job_id (lease now r) = job_id r"
  by (simp add: lease_def)

lemma row_replaced_sql_update:
  assumes "\<And>r. job_id (s r) = job_id r" and "\<And>r. w r \<Longrightarrow> job_id r = i"
    and "find_job d i = Some r" and "w r"
  shows "row_replaced d i (s r) (sql_update w s d)"
  using assms
  by (simp add: row_replaced_def find_job_sql_update others_sql_update map_job_id_sql_update)

lemma unixepoch_now_plus_in_range:
  "0 \<le> n \<Longrightarrow> now + n \<le> unixepoch_max \<Longrightarrow> unixepoch_now_plus now n = Some (now + n)"
  by (simp add: unixepoch_now_plus_def)

lemma lease_eq:
  "lease now r = r\<lparr>status := IN_PROGRESS, deadline := deadline (lease now r),
      attempts_remaining := attempts_remaining r - 1\<rparr>"
  by (simp add: lease_def)

section \<open>The claim: getNextJob\<close>

text \<open>
  C4, as amended. In a table with distinct ids, \<^verbatim>\<open>getNextJob\<close> hands out a row if and only
  if some row is pending with attempts left, or in progress with attempts left and a
  deadline before the clock. When it hands out nothing the table is unchanged. When it
  hands out \<open>j\<close>, some eligible row \<open>r\<close> of the table has become \<open>j\<close> in the one
  statement: \<open>j\<close> is \<open>r\<close> with status \<open>IN_PROGRESS\<close>, one attempt less and a new
  deadline, every other row is as before, and \<open>j\<close> is the row of the table after the
  update. The new deadline is \<open>now + time_limit_seconds\<close> whenever the time limit is not
  negative and that sum is a date of the store (at most \<open>unixepoch_max\<close>).
\<close>

theorem getNextJob_claim:
  assumes "wf_db d"
  shows "(snd (getNextJob now d) \<noteq> None) =
           (\<exists>r\<in>set d. (status r = PENDING \<and> 0 < attempts_remaining r)
              \<or> (status r = IN_PROGRESS \<and> (\<exists>t. deadline r = Some t \<and> t < now)
                  \<and> 0 < attempts_remaining r))
       \<and> (snd (getNextJob now d) = None \<longrightarrow> fst (getNextJob now d) = d)
       \<and> (\<forall>j. snd (getNextJob now d) = Some j \<longrightarrow>
            (\<exists>r\<in>set d. eligible now r
               \<and> j = r\<lparr>status := IN_PROGRESS, deadline := deadline j,
                        attempts_remaining := attempts_remaining r - 1\<rparr>
               \<and> (0 \<le> time_limit_seconds r \<and> now + time_limit_seconds r \<le> unixepoch_max
                    \<longrightarrow> deadline j = Some (now + time_limit_seconds r))
               \<and> row_replaced d (job_id r) j (fst (getNextJob now d))))"
proof (cases "\<exists>r\<in>set d. eligible now r")
  case False
  then have "getNextJob now d = (d, None)"
    by (simp add: getNextJob_none)
  moreover have "\<not> (\<exists>r\<in>set d. (status r = PENDING \<and> 0 < attempts_remaining r)
              \<or> (status r = IN_PROGRESS \<and> (\<exists>t. deadline r = Some t \<and> t < now)
                  \<and> 0 < attempts_remaining r))"
    using False by (auto simp: eligible_def)
  ultimately show ?thesis by simp
next
  case True
  from getNextJob_some [OF assms True] obtain r where mem: "r \<in> set d"
    and el: "eligible now r"
    and g: "getNextJob now d =
       (sql_update (\<lambda>q. job_id q = job_id r) (lease now) d, Some (lease now r))"
    by blast
  have f: "find_job d (job_id r) = Some r"
    using assms mem by (simp add: find_job_Some_iff)
  have rep: "row_replaced d (job_id r) (lease now r)
      (sql_update (\<lambda>q. job_id q = job_id r) (lease now) d)"
    by (rule row_replaced_sql_update [OF _ _ f]) simp_all
  have dl: "0 \<le> time_limit_seconds r \<and> now + time_limit_seconds r \<le> unixepoch_max
        \<longrightarrow> deadline (lease now r) = Some (now + time_limit_seconds r)"
    by (simp add: lease_def unixepoch_now_plus_in_range)
  have iff: "\<exists>r\<in>set d. (status r = PENDING \<and> 0 < attempts_remaining r)
              \<or> (status r = IN_PROGRESS \<and> (\<exists>t. deadline r = Some t \<and> t < now)
                  \<and> 0 < attempts_remaining r)"
    using mem el by (auto simp: eligible_def split: option.splits)
  show ?thesis
    using g mem el rep dl iff lease_eq [of now r] by auto
qed

theorem getNextJob_claim_witness:
  "wf_db [row_pending, row_complete]
   \<and> getNextJob 130 [row_pending, row_complete] =
       ([row_pending\<lparr>status := IN_PROGRESS, deadline := Some 190, attempts_remaining := 1\<rparr>,
         row_complete],
        Some (row_pending\<lparr>status := IN_PROGRESS, deadline := Some 190, attempts_remaining := 1\<rparr>))
   \<and> getNextJob 130 [row_complete] = ([row_complete], None)"
  using getNextJob_claim [of "[row_pending, row_complete]" 130]
    getNextJob_claim [of "[row_complete]" 130]
  by (simp add: run_defs sample_rows)

text \<open>
  C4 as stated has the deadline set to \<open>now + time_limit_seconds\<close> for every row. A job
  enqueued with the time limit \<open>-1\<close> is claimed at clock 100 with the deadline NULL, not
  99: the modifier is \<^verbatim>\<open>+-1 second\<close>.
\<close>

theorem getNextJob_deadline_counterexample:
  "enqueueJob 50 []
        \<lparr>p_description = ''a'', p_time_limit_seconds = - 1, p_max_attempts = 2\<rparr> =
     Inr ([row_negative_limit\<lparr>status := PENDING, attempts_remaining := 2\<rparr>], 1)
   \<and> getNextJob 100 [row_negative_limit\<lparr>status := PENDING, attempts_remaining := 2\<rparr>] =
       ([row_negative_limit], Some row_negative_limit)
   \<and> deadline row_negative_limit \<noteq> Some (100 + time_limit_seconds row_negative_limit)"
  by (simp add: run_defs sample_rows)

text \<open>
  C7. In a table with distinct ids and at least one eligible row (so also with two or
  more), \<^verbatim>\<open>getNextJob\<close> hands out an eligible row whose deadline, before the update, is
  the greatest among the eligible rows; a NULL deadline counts as the least.
\<close>

theorem getNextJob_latest_deadline:
  assumes "wf_db d" and "filter (eligible now) d \<noteq> []"
  shows "\<exists>j. snd (getNextJob now d) = Some j
           \<and> (\<exists>r\<in>set d. job_id r = job_id j \<and> eligible now r
                \<and> (\<forall>q\<in>set d. eligible now q \<longrightarrow> deadline q \<le> deadline r))"
proof -
  from assms(2) have "\<exists>r\<in>set d. eligible now r"
    by (simp add: filter_empty_conv)
  from getNextJob_some [OF assms(1) this] show ?thesis
    by auto
qed

theorem getNextJob_latest_deadline_witness:
  "wf_db [row_pending, row_complete, row_expired]
   \<and> filter (eligible 130) [row_pending, row_complete, row_expired] = [row_pending, row_expired]
   \<and> map_option job_id (snd (getNextJob 130 [row_pending, row_complete, row_expired])) = Some 3"
  using getNextJob_latest_deadline [of "[row_pending, row_complete, row_expired]" 130]
  by (simp add: run_defs sample_rows)

section \<open>Finalising: completeJob and failJob\<close>

text \<open>
  C5. In a table with distinct ids, \<^verbatim>\<open>completeJob\<close> with the row \<open>job\<close> of a claim: when
  the table has a row of that id whose attempts equal those of \<open>job\<close>, that row, and no
  other, gets the status \<open>COMPLETE\<close> and the call returns true; when the attempts differ,
  or no row has the id, the table is unchanged and the call returns false. The deadline
  plays no part: the call commutes with any change of the deadlines of the table.
\<close>

theorem completeJob_guard:
  assumes "wf_db d"
  shows "(case find_job d (job_id job) of
            None \<Rightarrow> completeJob d job = (d, False)
          | Some r \<Rightarrow>
              if attempts_remaining r = attempts_remaining job
              then snd (completeJob d job)
                \<and> row_replaced d (job_id job) (r\<lparr>status := COMPLETE\<rparr>) (fst (completeJob d job))
              else completeJob d job = (d, False))
       \<and> completeJob (map (\<lambda>r. r\<lparr>deadline := t (job_id r)\<rparr>) d) job =
           (map (\<lambda>r. r\<lparr>deadline := t (job_id r)\<rparr>) (fst (completeJob d job)), snd (completeJob d job))"
proof -
  let ?w = "\<lambda>r. job_id r = job_id job \<and> attempts_remaining r = attempts_remaining job"
  have A: "case find_job d (job_id job) of
            None \<Rightarrow> completeJob d job = (d, False)
          | Some r \<Rightarrow>
              if attempts_remaining r = attempts_remaining job
              then snd (completeJob d job)
                \<and> row_replaced d (job_id job) (r\<lparr>status := COMPLETE\<rparr>) (fst (completeJob d job))
              else completeJob d job = (d, False)"
  proof (cases "find_job d (job_id job)")
    case None
    then have "\<And>r. r \<in> set d \<Longrightarrow> \<not> ?w r"
      by (auto simp: find_job_None_iff)
    then have "sql_update ?w (\<lambda>r. r\<lparr>status := COMPLETE\<rparr>) d = d"
      by (rule sql_update_none)
    with None show ?thesis
      by (simp add: completeJob_def changes_key [OF assms])
  next
    case (Some r)
    show ?thesis
    proof (cases "attempts_remaining r = attempts_remaining job")
      case True
      have "row_replaced d (job_id job) (r\<lparr>status := COMPLETE\<rparr>)
          (sql_update ?w (\<lambda>r. r\<lparr>status := COMPLETE\<rparr>) d)"
        using find_job_in [OF Some] True
        by (intro row_replaced_sql_update [OF _ _ Some]) simp_all
      with Some True show ?thesis
        by (simp add: completeJob_def changes_key [OF assms])
    next
      case False
      have "\<And>q. q \<in> set d \<Longrightarrow> \<not> ?w q"
        using find_job_in [OF Some] False wf_db_unique [OF assms] by fastforce
      then have "sql_update ?w (\<lambda>r. r\<lparr>status := COMPLETE\<rparr>) d = d"
        by (rule sql_update_none)
      with Some False show ?thesis
        by (simp add: completeJob_def changes_key [OF assms])
    qed
  qed
  have B: "completeJob (map (\<lambda>r. r\<lparr>deadline := t (job_id r)\<rparr>) d) job =
           (map (\<lambda>r. r\<lparr>deadline := t (job_id r)\<rparr>) (fst (completeJob d job)), snd (completeJob d job))"
    by (simp add: completeJob_def sql_update_def changes_def filter_map o_def)
  from A B show ?thesis ..
qed

theorem completeJob_guard_witness:
  "wf_db [row_expired, row_complete]
   \<and> completeJob [row_expired, row_complete] row_expired =
       ([row_expired\<lparr>status := COMPLETE\<rparr>, row_complete], True)
   \<and> completeJob [row_expired, row_complete] (row_expired\<lparr>attempts_remaining := 2\<rparr>) =
       ([row_expired, row_complete], False)"
  using completeJob_guard [of "[row_expired, row_complete]" row_expired]
    completeJob_guard [of "[row_expired, row_complete]" "row_expired\<lparr>attempts_remaining := 2\<rparr>"]
  by (simp add: run_defs sample_rows)

text \<open>
  C3, as amended. In a table with distinct ids, \<^verbatim>\<open>failJob\<close> with the row \<open>job\<close> of a claim.
  When \<open>job\<close> has no attempts left: the row of that id, if its attempts equal those of
  \<open>job\<close>, gets the status \<open>FAILED\<close> and the reason as its error, and the call returns
  true; otherwise nothing changes and the call returns false. When \<open>job\<close> has attempts
  left: the row of that id, whatever its attempts, gets the status \<open>PENDING\<close> and a new
  deadline, and the call returns true; it returns false, changing nothing, when no row
  has the id. The new deadline is \<open>now + time_limit_seconds\<close> whenever the time limit is
  not negative and the sum is a date of the store.
\<close>

theorem failJob_transitions:
  assumes "wf_db d"
  shows "(attempts_remaining job \<le> 0 \<longrightarrow>
           (case find_job d (job_id job) of
              None \<Rightarrow> failJob now d job reason = (d, False)
            | Some r \<Rightarrow>
                if attempts_remaining r = attempts_remaining job
                then snd (failJob now d job reason)
                  \<and> row_replaced d (job_id job) (r\<lparr>status := FAILED, error := Some reason\<rparr>)
                       (fst (failJob now d job reason))
                else failJob now d job reason = (d, False)))
       \<and> (0 < attempts_remaining job \<longrightarrow>
           (case find_job d (job_id job) of
              None \<Rightarrow> failJob now d job reason = (d, False)
            | Some r \<Rightarrow>
                snd (failJob now d job reason)
                \<and> (\<exists>t. row_replaced d (job_id job) (r\<lparr>status := PENDING, deadline := t\<rparr>)
                           (fst (failJob now d job reason))
                      \<and> (0 \<le> time_limit_seconds r \<and> now + time_limit_seconds r \<le> unixepoch_max
                           \<longrightarrow> t = Some (now + time_limit_seconds r)))))"
proof (cases "find_job d (job_id job)")
  case None
  let ?w = "\<lambda>r. job_id r = job_id job \<and> attempts_remaining r = attempts_remaining job"
  let ?v = "\<lambda>r. job_id r = job_id job"
  from None have no: "\<And>r. r \<in> set d \<Longrightarrow> \<not> ?v r"
    by (simp add: find_job_None_iff)
  then have "sql_update ?w f d = d" and "sql_update ?v g d = d" for f g
    by (simp_all add: sql_update_none)
  with None show ?thesis
    by (simp add: failJob_def changes_key [OF assms] changes_id [OF assms])
next
  case (Some r)
  let ?w = "\<lambda>r. job_id r = job_id job \<and> attempts_remaining r = attempts_remaining job"
  let ?v = "\<lambda>r. job_id r = job_id job"
  let ?f = "\<lambda>r. r\<lparr>status := FAILED, error := Some reason\<rparr>"
  let ?g = "\<lambda>r. r\<lparr>status := PENDING, deadline := unixepoch_now_plus now (time_limit_seconds r)\<rparr>"
  note r = find_job_in [OF Some]
  have last_attempt: "snd (failJob now d job reason)
        \<and> row_replaced d (job_id job) (?f r) (fst (failJob now d job reason))"
    if "attempts_remaining job \<le> 0" "attempts_remaining r = attempts_remaining job"
  proof -
    have "row_replaced d (job_id job) (?f r) (sql_update ?w ?f d)"
      using r that by (intro row_replaced_sql_update [OF _ _ Some]) simp_all
    with Some that show ?thesis
      by (simp add: failJob_def changes_key [OF assms])
  qed
  have stale: "failJob now d job reason = (d, False)"
    if "attempts_remaining job \<le> 0" "attempts_remaining r \<noteq> attempts_remaining job"
  proof -
    have "\<And>q. q \<in> set d \<Longrightarrow> \<not> ?w q"
      using r that wf_db_unique [OF assms] by fastforce
    then have "sql_update ?w ?f d = d"
      by (rule sql_update_none)
    with Some that show ?thesis
      by (simp add: failJob_def changes_key [OF assms])
  qed
  have retry: "snd (failJob now d job reason)
        \<and> row_replaced d (job_id job) (?g r) (fst (failJob now d job reason))"
    if "0 < attempts_remaining job"
  proof -
    have "row_replaced d (job_id job) (?g r) (sql_update ?v ?g d)"
      using r by (intro row_replaced_sql_update [OF _ _ Some]) simp_all
    with Some that show ?thesis
      by (simp add: failJob_def changes_id [OF assms])
  qed
  have range: "0 \<le> time_limit_seconds r \<and> now + time_limit_seconds r \<le> unixepoch_max
      \<longrightarrow> unixepoch_now_plus now (time_limit_seconds r) = Some (now + time_limit_seconds r)"
    by (simp add: unixepoch_now_plus_in_range)
  show ?thesis
    using Some last_attempt stale retry range by auto
qed

theorem failJob_transitions_witness:
  "wf_db [row_expired, row_last_attempt]
   \<and> failJob 130 [row_expired, row_last_attempt] row_last_attempt ''Error: boom'' =
       ([row_expired, row_last_attempt\<lparr>status := FAILED, error := Some ''Error: boom''\<rparr>], True)
   \<and> failJob 130 [row_expired, row_last_attempt] row_expired ''Error: boom'' =
       ([row_expired\<lparr>status := PENDING, deadline := Some 140\<rparr>, row_last_attempt], True)"
  using failJob_transitions [of "[row_expired, row_last_attempt]" row_last_attempt 130 "''Error: boom''"]
    failJob_transitions [of "[row_expired, row_last_attempt]" row_expired 130 "''Error: boom''"]
  by (simp add: run_defs sample_rows)

text \<open>
  C3 as stated resets the deadline to \<open>now + time_limit_seconds\<close> for every row. For the
  job of time limit \<open>-1\<close>, failed at clock 100 with an attempt left, the deadline
  written is NULL, not 99.
\<close>

theorem failJob_deadline_counterexample:
  "failJob 100 [row_negative_limit] row_negative_limit ''Error: boom'' =
     ([row_negative_limit\<lparr>status := PENDING\<rparr>], True)
   \<and> deadline (row_negative_limit\<lparr>status := PENDING\<rparr>)
       \<noteq> Some (100 + time_limit_seconds row_negative_limit)"
  by (simp add: run_defs sample_rows)

text \<open>
  A call with a token that is not the row's number of attempts changes nothing and returns
  false, in \<^verbatim>\<open>completeJob\<close> and in the branch of \<^verbatim>\<open>failJob\<close> for a job without attempts
  left.
\<close>

lemma stale_token_guarded:
  assumes "wf_db d" and "find_job d (job_id job) = Some r"
    and "attempts_remaining r \<noteq> attempts_remaining job"
  shows "completeJob d job = (d, False)"
    and "attempts_remaining job \<le> 0 \<Longrightarrow> failJob now d job reason = (d, False)"
proof -
  let ?w = "\<lambda>q. job_id q = job_id job \<and> attempts_remaining q = attempts_remaining job"
  have "\<And>q. q \<in> set d \<Longrightarrow> \<not> ?w q"
    using find_job_in [OF assms(2)] assms(3) wf_db_unique [OF assms(1)] by fastforce
  then have same: "sql_update ?w s d = d" for s
    by (rule sql_update_none)
  from same assms(2,3) show "completeJob d job = (d, False)"
    by (simp add: completeJob_def changes_key [OF assms(1)])
  from same assms(2,3) show "failJob now d job reason = (d, False)"
    if "attempts_remaining job \<le> 0"
    using that by (simp add: failJob_def changes_key [OF assms(1)])
qed

text \<open>
  C1. The claim has every finalising call with a stale token return false and leave the
  row alone. The branch of \<^verbatim>\<open>failJob\<close> for a job with attempts left does neither: a job
  with two attempts is claimed at clock 1 by one worker and, its lease having run out,
  at clock 2 by a second; the row now has no attempts left. The first worker's
  \<^verbatim>\<open>failJob\<close>, with the row it was handed (one attempt left), returns true and puts the
  job of the second worker back to pending.
\<close>

theorem failJob_stale_token_requeues:
  "granted [] [Enqueue 0 (zero_limit_params 2), Claim 1, Claim 2] =
     [zero_limit_row 2 IN_PROGRESS 1 1, zero_limit_row 2 IN_PROGRESS 0 2]
   \<and> exec [] [Enqueue 0 (zero_limit_params 2), Claim 1, Claim 2] = [zero_limit_row 2 IN_PROGRESS 0 2]
   \<and> failJob 3 [zero_limit_row 2 IN_PROGRESS 0 2] (zero_limit_row 2 IN_PROGRESS 1 1) ''Error: boom'' =
       ([zero_limit_row 2 PENDING 0 3], True)"
  by (simp add: run_defs sample_rows)

section \<open>Runs of the worker loop\<close>

lemma next_rowid_fresh: "\<forall>r\<in>set d. job_id r < next_rowid d"
proof (cases "d = []")
  case True
  then show ?thesis by simp
next
  case False
  have "job_id r \<le> Max (set (map job_id d))" if "r \<in> set d" for r
    using that by (intro Max_ge) simp_all
  with False show ?thesis
    by (fastforce simp: next_rowid_def)
qed

lemma enqueueJob_Inr:
  "enqueueJob now d p = Inr (d1, i) \<longleftrightarrow>
     storable p \<and> d1 = d @ [new_row now d p] \<and> i = next_rowid d"
  by (auto simp: enqueueJob_def)

lemma step_Enqueue:
  "step d (Enqueue now p) = (if storable p then d @ [new_row now d p] else d)"
  by (simp add: enqueueJob_def)

lemma job_id_new_row [simp]: "job_id (new_row now d p) = next_rowid d"
  by (simp add: new_row_def)

lemma wf_db_new_row: "wf_db d \<Longrightarrow> wf_db (d @ [new_row now d p])"
  using next_rowid_fresh [of d] by (fastforce simp: wf_db_def)

lemma find_job_append:
  "find_job (d @ [r]) i = (case find_job d i of None \<Rightarrow> (if job_id r = i then Some r else None) | Some q \<Rightarrow> Some q)"
  by (induction d) (simp_all add: find_job_def)

lemma find_job_Enqueue_old:
  "find_job d i = Some r \<Longrightarrow> find_job (step d (Enqueue now p)) i = Some r"
  by (simp add: step_Enqueue find_job_append del: step.simps)

lemma wf_db_step: "wf_db d \<Longrightarrow> wf_db (step d e)"
proof (cases e)
  case (Enqueue now p)
  then show "wf_db d \<Longrightarrow> wf_db (step d e)" by (simp add: step_Enqueue wf_db_new_row del: step.simps)
next
  case (Claim now)
  then show "wf_db d \<Longrightarrow> wf_db (step d e)"
    by (simp add: getNextJob_def wf_db_def map_job_id_sql_update split: option.split)
next
  case (Complete job)
  then show "wf_db d \<Longrightarrow> wf_db (step d e)"
    by (simp add: completeJob_def wf_db_def map_job_id_sql_update)
next
  case (Fail now job reason)
  then show "wf_db d \<Longrightarrow> wf_db (step d e)"
    by (simp add: failJob_def wf_db_def map_job_id_sql_update)
qed

lemma wf_db_exec: "wf_db d \<Longrightarrow> wf_db (exec d es)"
  by (induction es arbitrary: d) (simp_all add: wf_db_step)

text \<open>What one event does to the row of a given id.\<close>

lemma handed_cases:
  assumes "wf_db d"
  shows "(handed d e = [] \<and> (\<forall>now. e = Claim now \<longrightarrow> step d e = d))
       \<or> (\<exists>now r. e = Claim now \<and> r \<in> set d \<and> eligible now r \<and> handed d e = [lease now r]
             \<and> step d e = sql_update (\<lambda>q. job_id q = job_id r) (lease now) d)"
proof (cases e)
  case (Claim now)
  show ?thesis
  proof (cases "\<exists>r\<in>set d. eligible now r")
    case True
    from getNextJob_some [OF assms True] Claim show ?thesis by auto
  next
    case False
    then have "getNextJob now d = (d, None)" by (simp add: getNextJob_none)
    with Claim show ?thesis by simp
  qed
qed simp_all

lemma step_row:
  assumes wf: "wf_db d" and r: "find_job d i = Some r"
  shows "\<exists>r'. find_job (step d e) i = Some r'
           \<and> max_attempts r' = max_attempts r
           \<and> attempts_remaining r' =
               attempts_remaining r - int (length (filter (\<lambda>j. job_id j = i) (handed d e)))
           \<and> (handed d e = [] \<or> job_id (hd (handed d e)) \<noteq> i \<or> 0 < attempts_remaining r)"
proof (cases e)
  case (Enqueue now p)
  with r show ?thesis by (simp add: find_job_Enqueue_old del: step.simps)
next
  case (Complete job)
  with r show ?thesis by (simp add: completeJob_def find_job_sql_update)
next
  case (Fail now job reason)
  with r show ?thesis by (simp add: failJob_def find_job_sql_update)
next
  case (Claim now)
  from handed_cases [OF wf, of e] show ?thesis
  proof (elim disjE exE conjE)
    assume "handed d e = []" "\<forall>now. e = Claim now \<longrightarrow> step d e = d"
    with Claim r show ?thesis by simp
  next
    fix t q
    assume e: "e = Claim t" and q: "q \<in> set d" "eligible t q"
      and h: "handed d e = [lease t q]"
      and s: "step d e = sql_update (\<lambda>x. job_id x = job_id q) (lease t) d"
    show ?thesis
    proof (cases "job_id q = i")
      case True
      with wf q r have "q = r"
        using find_job_Some_iff [OF wf, of i q] by simp
      with q True s h r show ?thesis
        by (simp add: find_job_sql_update lease_def eligible_def) auto
    next
      case False
      with s h r find_job_in [OF r] show ?thesis
        by (simp add: find_job_sql_update)
    qed
  qed
qed

lemma exec_row:
  assumes "wf_db d" and "find_job d i = Some r"
  shows "\<exists>r'. find_job (exec d es) i = Some r'
           \<and> max_attempts r' = max_attempts r
           \<and> attempts_remaining r' = attempts_remaining r - int (leases i d es)
           \<and> (leases i d es = 0 \<or> 0 \<le> attempts_remaining r')"
  using assms
proof (induction es arbitrary: d r)
  case Nil
  then show ?case by (simp add: leases_def)
next
  case (Cons e es)
  from step_row [OF Cons.prems, of e] obtain r1 where
    r1: "find_job (step d e) i = Some r1" "max_attempts r1 = max_attempts r"
      "attempts_remaining r1 =
         attempts_remaining r - int (length (filter (\<lambda>j. job_id j = i) (handed d e)))"
      "handed d e = [] \<or> job_id (hd (handed d e)) \<noteq> i \<or> 0 < attempts_remaining r"
    by blast
  from Cons.IH [OF wf_db_step [OF Cons.prems(1)] r1(1)] obtain r' where
    r': "find_job (exec (step d e) es) i = Some r'" "max_attempts r' = max_attempts r1"
      "attempts_remaining r' = attempts_remaining r1 - int (leases i (step d e) es)"
      "leases i (step d e) es = 0 \<or> 0 \<le> attempts_remaining r'"
    by blast
  have len: "length (handed d e) \<le> 1"
    by (cases e) (simp_all split: option.split)
  have split: "leases i d (e # es) =
      length (filter (\<lambda>j. job_id j = i) (handed d e)) + leases i (step d e) es"
    by (simp add: leases_def)
  have nonneg: "leases i d (e # es) = 0 \<or> 0 \<le> attempts_remaining r'"
  proof (cases "leases i (step d e) es = 0")
    case False
    with r'(4) show ?thesis by simp
  next
    case True
    show ?thesis
    proof (cases "filter (\<lambda>j. job_id j = i) (handed d e) = []")
      case True
      with \<open>leases i (step d e) es = 0\<close> split show ?thesis by simp
    next
      case False
      then obtain j where j: "handed d e = [j]" "job_id j = i"
        using len by (cases "handed d e") (auto split: if_splits)
      with r1(4) have "0 < attempts_remaining r" by simp
      with r1(3) r'(3) True j show ?thesis by simp
    qed
  qed
  from r' r1 split nonneg show ?case
    by simp
qed

lemma find_job_new_row:
  "find_job (d @ [new_row now d params]) (next_rowid d) = Some (new_row now d params)"
proof -
  have "find_job d (next_rowid d) = None"
    using next_rowid_fresh [of d] by (fastforce simp: find_job_None_iff)
  then show ?thesis
    by (simp add: find_job_append)
qed


lemma worker_run_untouched:
  assumes "wf_db d" and "find_job d i = Some r" and "attempts_remaining r \<le> 0"
    and "\<forall>j\<in>set held. job_id j \<noteq> i" and "worker_run held d es"
  shows "find_job (exec d es) i = Some r"
  using assms
proof (induction es arbitrary: d held)
  case Nil
  then show ?case by simp
next
  case (Cons e es)
  note wf = Cons.prems(1) and r = Cons.prems(2)
  have ri: "r \<in> set d" "job_id r = i"
    using find_job_in [OF r] by simp_all
  show ?case
  proof (cases e)
    case (Enqueue now p)
    have "find_job (exec (step d e) es) i = Some r"
    proof (rule Cons.IH [OF wf_db_step [OF wf] _ Cons.prems(3)])
      show "find_job (step d e) i = Some r"
        using r Enqueue by (simp add: find_job_Enqueue_old del: step.simps)
      show "\<forall>j\<in>set held. job_id j \<noteq> i" by (rule Cons.prems(4))
      show "worker_run held (step d e) es"
        using Cons.prems(5) Enqueue by simp
    qed
    then show ?thesis by simp
  next
    case (Complete job)
    from Cons.prems(5) Complete have job: "job \<in> set held"
      and run: "worker_run (remove1 job held) (step d e) es"
      by simp_all
    from job Cons.prems(4) have ne: "job_id job \<noteq> i" by auto
    have "find_job (exec (step d e) es) i = Some r"
    proof (rule Cons.IH [OF wf_db_step [OF wf] _ Cons.prems(3) _ run])
      show "find_job (step d e) i = Some r"
        using r ne ri Complete by (simp add: completeJob_def find_job_sql_update)
      show "\<forall>j\<in>set (remove1 job held). job_id j \<noteq> i"
        using Cons.prems(4) by (auto dest: notin_set_remove1)
    qed
    then show ?thesis by simp
  next
    case (Fail now job reason)
    from Cons.prems(5) Fail have job: "job \<in> set held"
      and run: "worker_run (remove1 job held) (step d e) es"
      by simp_all
    from job Cons.prems(4) have ne: "job_id job \<noteq> i" by auto
    have "find_job (exec (step d e) es) i = Some r"
    proof (rule Cons.IH [OF wf_db_step [OF wf] _ Cons.prems(3) _ run])
      show "find_job (step d e) i = Some r"
        using r ne ri Fail by (simp add: failJob_def find_job_sql_update)
      show "\<forall>j\<in>set (remove1 job held). job_id j \<noteq> i"
        using Cons.prems(4) by (auto dest: notin_set_remove1)
    qed
    then show ?thesis by simp
  next
    case (Claim now)
    from Cons.prems(5) Claim have run: "worker_run (handed d e @ held) (step d e) es"
      by simp
    from handed_cases [OF wf, of e]
    have "find_job (step d e) i = Some r \<and> (\<forall>j\<in>set (handed d e). job_id j \<noteq> i)"
    proof (elim disjE exE conjE)
      assume "handed d e = []" "\<forall>now. e = Claim now \<longrightarrow> step d e = d"
      with Claim r show ?thesis by simp
    next
      fix t q
      assume q: "q \<in> set d" "eligible t q" and h: "handed d e = [lease t q]"
        and s: "step d e = sql_update (\<lambda>x. job_id x = job_id q) (lease t) d"
      from q(2) Cons.prems(3) have "q \<noteq> r"
        by (auto simp: eligible_def)
      with wf_db_unique [OF wf q(1) ri(1)] ri(2) have "job_id q \<noteq> i" by auto
      with r ri h s show ?thesis
        by (simp add: find_job_sql_update)
    qed
    then have "find_job (exec (step d e) es) i = Some r"
      using Cons.IH [OF wf_db_step [OF wf] _ Cons.prems(3) _ run] Cons.prems(4) by auto
    then show ?thesis by simp
  qed
qed

lemma getNextJob_terminal_row:
  assumes "wf_db d" and "find_job d i = Some r" and "terminal r"
  shows "find_job (fst (getNextJob now d)) i = Some r"
proof -
  from handed_cases [OF assms(1), of "Claim now"] show ?thesis
  proof (elim disjE exE conjE)
    assume "\<forall>t. Claim now = Claim t \<longrightarrow> step d (Claim now) = d"
    with assms(2) show ?thesis by simp
  next
    fix t q
    assume "Claim now = Claim t" and q: "q \<in> set d" "eligible t q"
      and s: "step d (Claim now) = sql_update (\<lambda>x. job_id x = job_id q) (lease t) d"
    from q(2) assms(3) have "q \<noteq> r"
      by (auto simp: eligible_def terminal_def)
    moreover have "q = r" if "job_id q = i"
      using wf_db_unique [OF assms(1) q(1), of r] find_job_in [OF assms(2)] that by simp
    ultimately have "job_id q \<noteq> i"
      by blast
    with s assms(2) find_job_in [OF assms(2)] show ?thesis
      by (simp add: find_job_sql_update)
  qed
qed

text \<open>
  The rows held by the workers during a run of the worker loop: they satisfy \<open>held_ok\<close>
  throughout.
\<close>

lemma exec_append: "exec d (es @ es') = exec (exec d es) es'"
  by (induction es arbitrary: d) simp_all

lemma worker_run_append:
  "worker_run held d (es @ es') \<longleftrightarrow>
     worker_run held d es \<and> worker_run (holding held d es) (exec d es) es'"
  by (induction held d es rule: worker_run.induct) simp_all

lemma held_ok_row:
  assumes "wf_db d" and "held_ok held d" and "j \<in> set held" and "find_job d (job_id j) = Some r"
  shows "attempts_remaining r \<le> attempts_remaining j"
    and "attempts_remaining r = attempts_remaining j \<Longrightarrow> \<not> terminal r"
proof -
  from assms(2,3) obtain q where q: "q \<in> set d" "job_id q = job_id j"
    "attempts_remaining q \<le> attempts_remaining j"
    "attempts_remaining q = attempts_remaining j \<longrightarrow> \<not> terminal q"
    unfolding held_ok_def by blast
  have "q = r"
    using wf_db_unique [OF assms(1) q(1), of r] find_job_in [OF assms(4)] q(2) by simp
  with q show "attempts_remaining r \<le> attempts_remaining j"
    and "attempts_remaining r = attempts_remaining j \<Longrightarrow> \<not> terminal r"
    by simp_all
qed

text \<open>A finalising call of a worker with the guard on the attempts spares terminal rows.\<close>

lemma guarded_spares_terminal:
  assumes "wf_db d" and "held_ok held d" and "job \<in> set held"
    and "find_job d i = Some r" and "terminal r"
  shows "find_job (fst (completeJob d job)) i = Some r"
    and "attempts_remaining job \<le> 0 \<Longrightarrow> find_job (fst (failJob now d job reason)) i = Some r"
proof -
  have ne: "\<not> (job_id r = job_id job \<and> attempts_remaining r = attempts_remaining job)"
  proof
    assume a: "job_id r = job_id job \<and> attempts_remaining r = attempts_remaining job"
    with assms(4) find_job_in [OF assms(4)] have "find_job d (job_id job) = Some r" by simp
    from held_ok_row(2) [OF assms(1,2,3) this] a assms(5) show False by simp
  qed
  with assms(4) show "find_job (fst (completeJob d job)) i = Some r"
    by (auto simp: completeJob_def find_job_sql_update)
  from ne assms(4) show "find_job (fst (failJob now d job reason)) i = Some r"
    if "attempts_remaining job \<le> 0"
    using that by (auto simp: failJob_def find_job_sql_update)
qed

lemma set_sql_update: "r \<in> set d \<Longrightarrow> (if w r then s r else r) \<in> set (sql_update w s d)"
  by (auto simp: sql_update_def)

lemma held_ok_update:
  assumes ok: "held_ok held d"
    and keep: "\<And>r. job_id (s r) = job_id r \<and> attempts_remaining (s r) = attempts_remaining r"
    and sub: "set held' \<subseteq> set held"
    and dist: "distinct (map (\<lambda>j. (job_id j, attempts_remaining j)) held')"
    and nt: "\<And>j r. j \<in> set held' \<Longrightarrow> r \<in> set d \<Longrightarrow> job_id r = job_id j \<Longrightarrow>
        attempts_remaining r = attempts_remaining j \<Longrightarrow> w r \<Longrightarrow> \<not> terminal (s r)"
  shows "held_ok held' (sql_update w s d)"
  unfolding held_ok_def
proof (intro conjI ballI)
  show "distinct (map (\<lambda>j. (job_id j, attempts_remaining j)) held')" by (rule dist)
next
  fix j assume j: "j \<in> set held'"
  with sub ok obtain r where r: "r \<in> set d" "job_id r = job_id j"
    "attempts_remaining r \<le> attempts_remaining j"
    "attempts_remaining r = attempts_remaining j \<longrightarrow> \<not> terminal r"
    unfolding held_ok_def by blast
  let ?r' = "if w r then s r else r"
  have "?r' \<in> set (sql_update w s d)"
    using r(1) by (rule set_sql_update)
  moreover have "job_id ?r' = job_id j" "attempts_remaining ?r' \<le> attempts_remaining j"
    using r(2,3) keep by simp_all
  moreover have "attempts_remaining ?r' = attempts_remaining j \<longrightarrow> \<not> terminal ?r'"
    using r nt [OF j r(1,2)] keep by auto
  ultimately show "\<exists>r\<in>set (sql_update w s d). job_id r = job_id j
      \<and> attempts_remaining r \<le> attempts_remaining j
      \<and> (attempts_remaining r = attempts_remaining j \<longrightarrow> \<not> terminal r)"
    by blast
qed

lemma held_remove1:
  assumes "distinct (map (\<lambda>j. (job_id j, attempts_remaining j)) held)" and "job \<in> set held"
  shows "distinct (map (\<lambda>j. (job_id j, attempts_remaining j)) (remove1 job held))"
    and "\<And>j. j \<in> set (remove1 job held) \<Longrightarrow>
      \<not> (job_id j = job_id job \<and> attempts_remaining j = attempts_remaining job)"
proof -
  from assms(1) have d: "distinct held"
    and inj: "inj_on (\<lambda>j. (job_id j, attempts_remaining j)) (set held)"
    by (simp_all add: distinct_map)
  have sub: "set (remove1 job held) \<subseteq> set held"
    by (rule set_remove1_subset)
  from d inj sub show "distinct (map (\<lambda>j. (job_id j, attempts_remaining j)) (remove1 job held))"
    by (simp add: distinct_map inj_on_subset)
  fix j assume j: "j \<in> set (remove1 job held)"
  with d have "j \<in> set held" "j \<noteq> job" by auto
  with inj assms(2) show "\<not> (job_id j = job_id job \<and> attempts_remaining j = attempts_remaining job)"
    by (auto dest: inj_onD)
qed

lemma held_ok_step:
  assumes wf: "wf_db d" and ok: "held_ok held d" and run: "worker_run held d [e]"
  shows "held_ok (holding held d [e]) (step d e)"
proof (cases e)
  case (Enqueue now p)
  have "held_ok held (d @ [r])" for r
    using ok unfolding held_ok_def by auto
  with Enqueue ok show ?thesis by (simp add: step_Enqueue del: step.simps)
next
  case (Complete job)
  with run have job: "job \<in> set held" by simp
  from ok have dist: "distinct (map (\<lambda>j. (job_id j, attempts_remaining j)) held)"
    by (simp add: held_ok_def)
  have "held_ok (remove1 job held)
      (sql_update (\<lambda>r. job_id r = job_id job \<and> attempts_remaining r = attempts_remaining job)
         (\<lambda>r. r\<lparr>status := COMPLETE\<rparr>) d)"
    using held_remove1 [OF dist job]
    by (intro held_ok_update [OF ok]) (auto simp: set_remove1_subset)
  with Complete show ?thesis by (simp add: completeJob_def)
next
  case (Fail now job reason)
  with run have job: "job \<in> set held" by simp
  from ok have dist: "distinct (map (\<lambda>j. (job_id j, attempts_remaining j)) held)"
    by (simp add: held_ok_def)
  have "held_ok (remove1 job held)
      (sql_update (\<lambda>r. job_id r = job_id job \<and> attempts_remaining r = attempts_remaining job)
         (\<lambda>r. r\<lparr>status := FAILED, error := Some reason\<rparr>) d)"
    using held_remove1 [OF dist job]
    by (intro held_ok_update [OF ok]) (auto simp: set_remove1_subset)
  moreover have "held_ok (remove1 job held)
      (sql_update (\<lambda>r. job_id r = job_id job)
         (\<lambda>r. r\<lparr>status := PENDING,
                 deadline := unixepoch_now_plus now (time_limit_seconds r)\<rparr>) d)"
    using held_remove1(1) [OF dist job]
    by (intro held_ok_update [OF ok]) (auto simp: set_remove1_subset terminal_def)
  ultimately show ?thesis
    using Fail by (simp add: failJob_def)
next
  case (Claim now)
  from handed_cases [OF wf, of e] show ?thesis
  proof (elim disjE exE conjE)
    assume "handed d e = []" "\<forall>now. e = Claim now \<longrightarrow> step d e = d"
    with Claim ok show ?thesis by simp
  next
    fix t q
    assume e: "e = Claim t" and q: "q \<in> set d" "eligible t q"
      and h: "handed d e = [lease t q]"
      and s: "step d e = sql_update (\<lambda>x. job_id x = job_id q) (lease t) d"
    have old: "attempts_remaining q \<le> attempts_remaining j"
      if "j \<in> set held" "job_id j = job_id q" for j
    proof -
      from ok that(1) obtain r where r: "r \<in> set d" "job_id r = job_id j"
        "attempts_remaining r \<le> attempts_remaining j"
        unfolding held_ok_def by blast
      with that(2) wf_db_unique [OF wf r(1) q(1)] show ?thesis by simp
    qed
    have "(job_id q, attempts_remaining q - 1)
        \<notin> (\<lambda>j. (job_id j, attempts_remaining j)) ` set held"
    proof
      assume "(job_id q, attempts_remaining q - 1)
          \<in> (\<lambda>j. (job_id j, attempts_remaining j)) ` set held"
      then obtain j where "j \<in> set held" "job_id j = job_id q"
        "attempts_remaining j = attempts_remaining q - 1"
        by auto
      with old [of j] show False by simp
    qed
    then have dist: "distinct (map (\<lambda>j. (job_id j, attempts_remaining j)) (lease t q # held))"
      using ok by (simp add: held_ok_def lease_def)
    have rest: "held_ok held (sql_update (\<lambda>x. job_id x = job_id q) (lease t) d)"
      unfolding held_ok_def
    proof (intro conjI ballI)
      show "distinct (map (\<lambda>j. (job_id j, attempts_remaining j)) held)"
        using ok by (simp add: held_ok_def)
    next
      fix j assume j: "j \<in> set held"
      with ok obtain r where r: "r \<in> set d" "job_id r = job_id j"
        "attempts_remaining r \<le> attempts_remaining j"
        "attempts_remaining r = attempts_remaining j \<longrightarrow> \<not> terminal r"
        unfolding held_ok_def by blast
      let ?r' = "if job_id r = job_id q then lease t r else r"
      have "?r' \<in> set (sql_update (\<lambda>x. job_id x = job_id q) (lease t) d)"
        using r(1) by (rule set_sql_update)
      moreover have "job_id ?r' = job_id j" using r(2) by simp
      moreover have "attempts_remaining ?r' \<le> attempts_remaining j
          \<and> (attempts_remaining ?r' = attempts_remaining j \<longrightarrow> \<not> terminal ?r')"
        using r(3,4) by (simp add: lease_def terminal_def)
      ultimately show "\<exists>r\<in>set (sql_update (\<lambda>x. job_id x = job_id q) (lease t) d).
          job_id r = job_id j \<and> attempts_remaining r \<le> attempts_remaining j
          \<and> (attempts_remaining r = attempts_remaining j \<longrightarrow> \<not> terminal r)"
        by blast
    qed
    have new: "\<exists>r\<in>set (sql_update (\<lambda>x. job_id x = job_id q) (lease t) d).
        job_id r = job_id (lease t q) \<and> attempts_remaining r \<le> attempts_remaining (lease t q)
        \<and> (attempts_remaining r = attempts_remaining (lease t q) \<longrightarrow> \<not> terminal r)"
      using set_sql_update [OF q(1), of "\<lambda>x. job_id x = job_id q" "lease t"]
      by (intro bexI [of _ "lease t q"]) (simp_all add: lease_def terminal_def)
    from dist rest new have "held_ok (lease t q # held)
        (sql_update (\<lambda>x. job_id x = job_id q) (lease t) d)"
      unfolding held_ok_def by simp
    with e h s show ?thesis by simp
  qed
qed

lemma held_ok_run:
  assumes "wf_db d" and "held_ok held d" and "worker_run held d es"
  shows "held_ok (holding held d es) (exec d es)"
  using assms
proof (induction es arbitrary: d held)
  case Nil
  then show ?case by simp
next
  case (Cons e es)
  have one: "worker_run held d [e]" and rest: "worker_run (holding held d [e]) (step d e) es"
    using Cons.prems(3) worker_run_append [of held d "[e]" es] by simp_all
  from Cons.IH [OF wf_db_step [OF Cons.prems(1)] held_ok_step [OF Cons.prems(1,2) one] rest]
  have "held_ok (holding (holding held d [e]) (step d e) es) (exec (step d e) es)" .
  moreover have "holding held d (e # es) = holding (holding held d [e]) (step d e) es"
    by (cases e) simp_all
  ultimately show ?case by simp
qed

text \<open>
  In a run of the worker loop that starts with no row held, a row in a terminal state is
  changed by no event but a \<^verbatim>\<open>failJob\<close> for a job with attempts left.
\<close>

lemma terminal_row_kept:
  assumes wf: "wf_db d" and run: "worker_run [] d (es @ [e])"
    and r: "find_job (exec d es) i = Some r" and t: "terminal r"
    and e: "\<And>now job reason. e = Fail now job reason \<Longrightarrow> attempts_remaining job \<le> 0"
  shows "find_job (exec d (es @ [e])) i = Some r"
proof -
  let ?d = "exec d es" and ?h = "holding [] d es"
  from run have run1: "worker_run [] d es" and last: "worker_run ?h ?d [e]"
    by (simp_all add: worker_run_append)
  have wf': "wf_db ?d" using wf by (rule wf_db_exec)
  have ok: "held_ok ?h ?d"
    using wf _ run1 by (rule held_ok_run) (simp add: held_ok_def)
  have "find_job (step ?d e) i = Some r"
  proof (cases e)
    case (Enqueue now p)
    with r show ?thesis by (simp add: find_job_Enqueue_old del: step.simps)
  next
    case (Claim now)
    with getNextJob_terminal_row [OF wf' r t] show ?thesis by simp
  next
    case (Complete job)
    with last have "job \<in> set ?h" by simp
    from guarded_spares_terminal(1) [OF wf' ok this r t] Complete show ?thesis by simp
  next
    case (Fail now job reason)
    with last have "job \<in> set ?h" by simp
    from guarded_spares_terminal(2) [OF wf' ok this r t e [OF Fail]] Fail show ?thesis by simp
  qed
  then show ?thesis by (simp add: exec_append)
qed

text \<open>
  C2. The claim has no later operation change a job that is \<open>COMPLETE\<close> or \<open>FAILED\<close>.
  In a run of the worker loop that holds of every event but one (lemma
  \<open>terminal_row_kept\<close>): \<^verbatim>\<open>failJob\<close> for a job with attempts left. In the run below a
  job with three attempts is claimed at clock 1 and, the lease having run out, again at
  clock 2; the second worker completes it; then the work function of the first worker
  throws. Its \<^verbatim>\<open>failJob\<close> turns the complete job back to pending, and the claim at
  clock 4 hands it out once more.
\<close>

theorem complete_job_requeued:
  "worker_run [] []
     [Enqueue 0 (zero_limit_params 3), Claim 1, Claim 2,
      Complete (zero_limit_row 3 IN_PROGRESS 1 2),
      Fail 3 (zero_limit_row 3 IN_PROGRESS 2 1) ''Error: boom'', Claim 4]
   \<and> exec []
     [Enqueue 0 (zero_limit_params 3), Claim 1, Claim 2,
      Complete (zero_limit_row 3 IN_PROGRESS 1 2)] = [zero_limit_row 3 COMPLETE 1 2]
   \<and> failJob 3 [zero_limit_row 3 COMPLETE 1 2] (zero_limit_row 3 IN_PROGRESS 2 1) ''Error: boom'' =
       ([zero_limit_row 3 PENDING 1 3], True)
   \<and> getNextJob 4 [zero_limit_row 3 PENDING 1 3] =
       ([zero_limit_row 3 IN_PROGRESS 0 4], Some (zero_limit_row 3 IN_PROGRESS 0 4))"
  by (simp add: run_defs sample_rows)

text \<open>
  C6, as amended. A job created by \<^verbatim>\<open>enqueueJob\<close> with \<open>max_attempts = M\<close> in a table
  with distinct ids, after any events whatever: its row is still in the table, its attempts are \<open>M\<close> less
  the number of times a claim has handed it out (so each claim takes exactly one, and
  nothing else changes the number), they are never below \<open>min 0 M\<close>, so never negative
  for \<open>M \<ge> 0\<close>, and it has been handed out at most \<open>max 0 M\<close> times.
\<close>

theorem attempts_remaining_bound:
  assumes "wf_db d" and "enqueueJob now d params = Inr (d1, i)"
  shows "\<exists>r. find_job (exec d1 es) i = Some r
     \<and> attempts_remaining r = p_max_attempts params - int (leases i d1 es)
     \<and> min 0 (p_max_attempts params) \<le> attempts_remaining r
     \<and> int (leases i d1 es) \<le> max 0 (p_max_attempts params)"
proof -
  from assms(2) have d1: "d1 = d @ [new_row now d params]" and i: "i = next_rowid d"
    by (simp_all add: enqueueJob_Inr)
  have r0: "find_job d1 i = Some (new_row now d params)"
    unfolding d1 i by (rule find_job_new_row)
  have ar0: "attempts_remaining (new_row now d params) = p_max_attempts params"
    by (simp add: new_row_def)
  have wf1: "wf_db d1"
    unfolding d1 using assms(1) by (rule wf_db_new_row)
  from exec_row [OF wf1 r0, of es] ar0 obtain r where
    r: "find_job (exec d1 es) i = Some r"
      "attempts_remaining r = p_max_attempts params - int (leases i d1 es)"
      "leases i d1 es = 0 \<or> 0 \<le> attempts_remaining r"
    by auto
  from r(2,3) have "min 0 (p_max_attempts params) \<le> attempts_remaining r"
    and "int (leases i d1 es) \<le> max 0 (p_max_attempts params)"
    by auto
  with r(1,2) show ?thesis by blast
qed

theorem attempts_remaining_bound_witness:
  "wf_db []
   \<and> enqueueJob 0 [] (zero_limit_params 2) = Inr ([zero_limit_row 2 PENDING 2 0], 1)
   \<and> exec [zero_limit_row 2 PENDING 2 0] [Claim 1, Claim 2, Claim 3] =
       [zero_limit_row 2 IN_PROGRESS 0 2]
   \<and> leases 1 [zero_limit_row 2 PENDING 2 0] [Claim 1, Claim 2, Claim 3] = 2"
  using attempts_remaining_bound [of "[]" 0 "zero_limit_params 2" "[zero_limit_row 2 PENDING 2 0]" 1
      "[Claim 1, Claim 2, Claim 3]"]
  by (simp add: run_defs sample_rows leases_def)

text \<open>
  C6 as stated fails in two places. A job enqueued with \<open>max_attempts = -1\<close> has a
  negative number of attempts from the start. And a job need not end in a terminal state
  once its leases are used up: the job with two attempts below is claimed twice, the
  second worker completes it, the first worker's \<^verbatim>\<open>failJob\<close> then puts it back to
  pending with no attempts left. Both leases are finalised, the row is pending, and no
  run of the worker loop from there changes it.
\<close>

theorem stuck_pending_counterexample:
  "enqueueJob 0 [] (zero_limit_params (- 1)) = Inr ([zero_limit_row (- 1) PENDING (- 1) 0], 1)
   \<and> attempts_remaining (zero_limit_row (- 1) PENDING (- 1) 0) < 0
   \<and> worker_run [] []
     [Enqueue 0 (zero_limit_params 2), Claim 1, Claim 2,
      Complete (zero_limit_row 2 IN_PROGRESS 0 2),
      Fail 3 (zero_limit_row 2 IN_PROGRESS 1 1) ''Error: boom'']
   \<and> granted []
     [Enqueue 0 (zero_limit_params 2), Claim 1, Claim 2,
      Complete (zero_limit_row 2 IN_PROGRESS 0 2),
      Fail 3 (zero_limit_row 2 IN_PROGRESS 1 1) ''Error: boom''] =
     [zero_limit_row 2 IN_PROGRESS 1 1, zero_limit_row 2 IN_PROGRESS 0 2]
   \<and> exec []
     [Enqueue 0 (zero_limit_params 2), Claim 1, Claim 2,
      Complete (zero_limit_row 2 IN_PROGRESS 0 2),
      Fail 3 (zero_limit_row 2 IN_PROGRESS 1 1) ''Error: boom''] =
     [zero_limit_row 2 PENDING 0 3]
   \<and> \<not> terminal (zero_limit_row 2 PENDING 0 3)
   \<and> \<not> (\<exists>es. worker_run [] [zero_limit_row 2 PENDING 0 3] es
           \<and> find_job (exec [zero_limit_row 2 PENDING 0 3] es) 1
               \<noteq> Some (zero_limit_row 2 PENDING 0 3))"
proof -
  have "find_job (exec [zero_limit_row 2 PENDING 0 3] es) 1 = Some (zero_limit_row 2 PENDING 0 3)"
    if "worker_run [] [zero_limit_row 2 PENDING 0 3] es" for es
    by (rule worker_run_untouched [OF _ _ _ _ that]) (simp_all add: run_defs sample_rows)
  then show ?thesis
    by (simp add: run_defs sample_rows terminal_def)
qed




section \<open>A lease of no duration\<close>

text \<open>
  C8, as amended. Let a job with the time limit 0 and at least two attempts have been
  claimed at clock \<open>t1\<close>, and let its row still be as that claim left it (\<open>lease t1 r\<close>,
  for the row \<open>r\<close> before the claim). A claim at a later clock reading \<open>t2\<close>, when every
  other eligible row has an earlier deadline than this lease, hands out the same job
  again, with one attempt less again and the deadline \<open>t2\<close>; no other row changes.
\<close>

theorem zero_time_limit_reclaim:
  assumes "wf_db d" and "lease t1 r \<in> set d"
    and "time_limit_seconds r = 0" and "2 \<le> attempts_remaining r"
    and "t1 < t2" and "t2 \<le> unixepoch_max"
    and "\<forall>q\<in>set d. q \<noteq> lease t1 r \<and> eligible t2 q \<longrightarrow> deadline q < Some t1"
  shows "snd (getNextJob t2 d) =
           Some (r\<lparr>status := IN_PROGRESS, deadline := Some t2,
                   attempts_remaining := attempts_remaining r - 2\<rparr>)
       \<and> row_replaced d (job_id r)
           (r\<lparr>status := IN_PROGRESS, deadline := Some t2,
               attempts_remaining := attempts_remaining r - 2\<rparr>)
           (fst (getNextJob t2 d))"
proof -
  let ?r1 = "lease t1 r"
  have r1: "?r1 = r\<lparr>status := IN_PROGRESS, deadline := Some t1,
      attempts_remaining := attempts_remaining r - 1\<rparr>"
    using assms(3,5,6) by (simp add: lease_def unixepoch_now_plus_def)
  have el: "eligible t2 ?r1"
    using assms(4,5) by (simp add: r1 eligible_def)
  from getNextJob_some [OF assms(1)] assms(2) el obtain q where
    q: "q \<in> set d" "eligible t2 q" "\<forall>x\<in>set d. eligible t2 x \<longrightarrow> deadline x \<le> deadline q"
      "getNextJob t2 d = (sql_update (\<lambda>x. job_id x = job_id q) (lease t2) d, Some (lease t2 q))"
    by blast
  have "q = ?r1"
  proof (rule ccontr)
    assume "q \<noteq> ?r1"
    with q(1,2) assms(7) have "deadline q < Some t1" by blast
    moreover from q(3) assms(2) el have "deadline ?r1 \<le> deadline q" by blast
    ultimately show False by (simp add: r1)
  qed
  have l2: "lease t2 ?r1 = r\<lparr>status := IN_PROGRESS, deadline := Some t2,
      attempts_remaining := attempts_remaining r - 2\<rparr>"
    using assms(3,6) by (simp add: lease_def unixepoch_now_plus_def)
  have f: "find_job d (job_id r) = Some ?r1"
    using assms(1,2) by (simp add: find_job_Some_iff)
  have "row_replaced d (job_id r) (lease t2 ?r1)
      (sql_update (\<lambda>x. job_id x = job_id r) (lease t2) d)"
    by (rule row_replaced_sql_update [OF _ _ f]) simp_all
  with q(4) \<open>q = ?r1\<close> l2 show ?thesis by simp
qed

text \<open>
  The scenario of the spec on the empty table: enqueue at clock 0, claim at clock 1, claim
  at clock 2.
\<close>

theorem zero_time_limit_reclaim_witness:
  "wf_db [zero_limit_row 2 IN_PROGRESS 1 1]
   \<and> enqueueJob 0 [] (zero_limit_params 2) = Inr ([zero_limit_row 2 PENDING 2 0], 1)
   \<and> getNextJob 1 [zero_limit_row 2 PENDING 2 0] =
       ([lease 1 (zero_limit_row 2 PENDING 2 0)], Some (lease 1 (zero_limit_row 2 PENDING 2 0)))
   \<and> lease 1 (zero_limit_row 2 PENDING 2 0) = zero_limit_row 2 IN_PROGRESS 1 1
   \<and> (1::int) < 2 \<and> 2 \<le> unixepoch_max
   \<and> getNextJob 2 [zero_limit_row 2 IN_PROGRESS 1 1] =
       ([zero_limit_row 2 IN_PROGRESS 0 2], Some (zero_limit_row 2 IN_PROGRESS 0 2))"
  using zero_time_limit_reclaim [of "[zero_limit_row 2 IN_PROGRESS 1 1]" 1
      "zero_limit_row 2 PENDING 2 0" 2]
  by (simp add: run_defs sample_rows)

text \<open>
  C8 as stated has every later claim return the job. The lease of a job claimed at clock
  5 has the deadline 5, and the guard is \<^verbatim>\<open>deadline < unixepoch('now')\<close>: a second claim
  within the same second finds nothing. And a claim returns another job when that one is
  eligible with a later deadline: at clock 130 the row of id 3, with the deadline 120, is
  handed out.
\<close>

theorem reclaim_counterexample:
  "getNextJob 5 [zero_limit_row 2 PENDING 2 0] =
       ([zero_limit_row 2 IN_PROGRESS 1 5], Some (zero_limit_row 2 IN_PROGRESS 1 5))
   \<and> getNextJob 5 [zero_limit_row 2 IN_PROGRESS 1 5] = ([zero_limit_row 2 IN_PROGRESS 1 5], None)
   \<and> map_option job_id (snd (getNextJob 130 [zero_limit_row 2 IN_PROGRESS 1 5, row_expired])) = Some 3"
  by (simp add: run_defs sample_rows)

section \<open>Descriptions of follow-up jobs\<close>

lemma exec_enqueues:
  "\<exists>new. exec d (map (\<lambda>tp. Enqueue (fst tp) (snd tp)) tps) = d @ new
      \<and> map description new = map p_description (filter storable (map snd tps))
      \<and> map max_attempts new = map p_max_attempts (filter storable (map snd tps))
      \<and> map time_limit_seconds new = map p_time_limit_seconds (filter storable (map snd tps))"
proof (induction tps arbitrary: d)
  case Nil
  then show ?case by simp
next
  case (Cons tp tps)
  show ?case
  proof (cases "storable (snd tp)")
    case False
    with Cons.IH [of d] show ?thesis
      by (simp add: step_Enqueue del: step.simps)
  next
    case True
    let ?r = "new_row (fst tp) d (snd tp)"
    from Cons.IH [of "d @ [?r]"] obtain new where
      new: "exec (d @ [?r]) (map (\<lambda>tp. Enqueue (fst tp) (snd tp)) tps) = (d @ [?r]) @ new"
        "map description new = map p_description (filter storable (map snd tps))"
        "map max_attempts new = map p_max_attempts (filter storable (map snd tps))"
        "map time_limit_seconds new = map p_time_limit_seconds (filter storable (map snd tps))"
      by blast
    show ?thesis
      using True new
      by (intro exI [of _ "?r # new"]) (simp add: step_Enqueue new_row_def del: step.simps)
  qed
qed

lemma job_params_Some:
  "job_params desc ob = Some p \<Longrightarrow>
   p_description p = desc
   \<and> map_of ob ''max_attempts'' = Some (JNum (p_max_attempts p))
   \<and> map_of ob ''time_limit_seconds'' = Some (JNum (p_time_limit_seconds p))"
  by (auto simp: job_params_def num_field_def split: option.splits jsval.splits)

lemma map_of_rest_of:
  "map_of (rest_of ob) ''max_attempts'' = None \<and> map_of (rest_of ob) ''time_limit_seconds'' = None"
  by (induction ob) (auto simp: rest_of_def)

text \<open>
  C9. Let the work function return the objects \<open>jts\<close>, all of the client's type, so that
  \<^verbatim>\<open>startWorkers\<close> maps them to the parameters \<open>ps\<close>. \<^verbatim>\<open>startWorker\<close> inserts a row
  for each of them that the store accepts, in order. Every such row has the serialisation
  of a whole returned object as its description, an object with the properties
  \<^verbatim>\<open>max_attempts\<close> and \<^verbatim>\<open>time_limit_seconds\<close> at the values of the row; where
  \<^verbatim>\<open>JSON.parse\<close> reads the text back as the object, that object is what the worker of
  the follow-up job is called with. When the store accepts them all, the descriptions
  are the serialisations of \<open>jts\<close> one by one. The client's \<^verbatim>\<open>enqueueJob\<close> stores the
  serialisation of the rest, which has neither property.
\<close>

theorem follow_up_description:
  assumes "map (follow_up stringify) jts = map Some ps" and "length ts = length ps"
  shows "(\<exists>new. enqueue_new_jobs d (zip ts ps) = d @ new
            \<and> map description new = map p_description (filter storable ps)
            \<and> (\<forall>r\<in>set new. \<exists>jt\<in>set jts.
                 description r = stringify jt
                 \<and> map_of jt ''max_attempts'' = Some (JNum (max_attempts r))
                 \<and> map_of jt ''time_limit_seconds'' = Some (JNum (time_limit_seconds r))
                 \<and> (parse (stringify jt) = jt \<longrightarrow> payload parse r = jt))
            \<and> ((\<forall>p\<in>set ps. storable p) \<longrightarrow>
                 map description new = map stringify jts
                 \<and> (\<forall>k<length jts. parse (stringify (jts ! k)) = jts ! k \<longrightarrow>
                      payload parse (new ! k) = jts ! k
                      \<and> map_of (payload parse (new ! k)) ''max_attempts''
                          = Some (JNum (max_attempts (new ! k)))
                      \<and> map_of (payload parse (new ! k)) ''time_limit_seconds''
                          = Some (JNum (time_limit_seconds (new ! k))))))
       \<and> (\<forall>d' i. client_enqueueJob stringify now d params = Some (Inr (d', i)) \<longrightarrow>
            (\<exists>r. d' = d @ [r]
               \<and> description r = stringify (rest_of params)
               \<and> map_of (rest_of params) ''max_attempts'' = None
               \<and> map_of (rest_of params) ''time_limit_seconds'' = None
               \<and> (parse (stringify (rest_of params)) = rest_of params \<longrightarrow>
                    payload parse r = rest_of params)))"
proof (intro conjI allI impI)
  have len: "length jts = length ps"
    using assms(1) by (metis length_map)
  have each: "follow_up stringify (jts ! k) = Some (ps ! k)" if "k < length jts" for k
  proof -
    have "map (follow_up stringify) jts ! k = map Some ps ! k"
      using assms(1) by simp
    with that len show ?thesis by simp
  qed
  have snd_zip: "map snd (zip ts ps) = ps"
    using assms(2) by simp
  from exec_enqueues [of d "zip ts ps"] obtain new where
    new: "enqueue_new_jobs d (zip ts ps) = d @ new"
      "map description new = map p_description (filter storable ps)"
      "map max_attempts new = map p_max_attempts (filter storable ps)"
      "map time_limit_seconds new = map p_time_limit_seconds (filter storable ps)"
    unfolding enqueue_new_jobs_def snd_zip by blast
  have lnew: "length new = length (filter storable ps)"
    using new(2) by (metis length_map)
  have fields: "description (new ! k) = p_description (filter storable ps ! k)
        \<and> max_attempts (new ! k) = p_max_attempts (filter storable ps ! k)
        \<and> time_limit_seconds (new ! k) = p_time_limit_seconds (filter storable ps ! k)"
    if k: "k < length new" for k
  proof -
    have "description (new ! k) = map description new ! k"
      "max_attempts (new ! k) = map max_attempts new ! k"
      "time_limit_seconds (new ! k) = map time_limit_seconds new ! k"
      using k by simp_all
    with new(2,3,4) k lnew show ?thesis by simp
  qed
  have object: "\<exists>jt\<in>set jts. p_description q = stringify jt
        \<and> map_of jt ''max_attempts'' = Some (JNum (p_max_attempts q))
        \<and> map_of jt ''time_limit_seconds'' = Some (JNum (p_time_limit_seconds q))"
    if q: "q \<in> set ps" for q
  proof -
    from q obtain m where m: "m < length ps" "ps ! m = q"
      by (auto simp: in_set_conv_nth)
    with len have "jts ! m \<in> set jts" by simp
    moreover from job_params_Some [OF each [unfolded follow_up_def], of m] m len
    have "p_description q = stringify (jts ! m)
        \<and> map_of (jts ! m) ''max_attempts'' = Some (JNum (p_max_attempts q))
        \<and> map_of (jts ! m) ''time_limit_seconds'' = Some (JNum (p_time_limit_seconds q))"
      by simp
    ultimately show ?thesis by blast
  qed
  have rows: "\<forall>r\<in>set new. \<exists>jt\<in>set jts.
        description r = stringify jt
        \<and> map_of jt ''max_attempts'' = Some (JNum (max_attempts r))
        \<and> map_of jt ''time_limit_seconds'' = Some (JNum (time_limit_seconds r))
        \<and> (parse (stringify jt) = jt \<longrightarrow> payload parse r = jt)"
  proof
    fix r assume "r \<in> set new"
    then obtain k where k: "k < length new" "new ! k = r"
      by (auto simp: in_set_conv_nth)
    with lnew have "filter storable ps ! k \<in> set (filter storable ps)"
      by (intro nth_mem) simp
    then have "filter storable ps ! k \<in> set ps" by simp
    from object [OF this] fields [OF k(1)] k(2)
    show "\<exists>jt\<in>set jts.
        description r = stringify jt
        \<and> map_of jt ''max_attempts'' = Some (JNum (max_attempts r))
        \<and> map_of jt ''time_limit_seconds'' = Some (JNum (time_limit_seconds r))
        \<and> (parse (stringify jt) = jt \<longrightarrow> payload parse r = jt)"
      by (auto simp: payload_def)
  qed
  have all: "map description new = map stringify jts
        \<and> (\<forall>k<length jts. parse (stringify (jts ! k)) = jts ! k \<longrightarrow>
             payload parse (new ! k) = jts ! k
             \<and> map_of (payload parse (new ! k)) ''max_attempts''
                 = Some (JNum (max_attempts (new ! k)))
             \<and> map_of (payload parse (new ! k)) ''time_limit_seconds''
                 = Some (JNum (time_limit_seconds (new ! k))))"
    if st: "\<forall>p\<in>set ps. storable p"
  proof -
    from st have fs: "filter storable ps = ps" by simp
    have ln: "length new = length jts"
      using lnew fs len by simp
    have row: "description (new ! k) = stringify (jts ! k)
          \<and> map_of (jts ! k) ''max_attempts'' = Some (JNum (max_attempts (new ! k)))
          \<and> map_of (jts ! k) ''time_limit_seconds'' = Some (JNum (time_limit_seconds (new ! k)))"
      if k: "k < length jts" for k
      using job_params_Some [OF each [OF k, unfolded follow_up_def]] fields [of k] k ln fs
      by simp
    have "map description new = map stringify jts"
      using ln row by (intro nth_equalityI) simp_all
    with row show ?thesis by (simp add: payload_def)
  qed
  from new(1,2) rows all
  show "\<exists>new. enqueue_new_jobs d (zip ts ps) = d @ new
            \<and> map description new = map p_description (filter storable ps)
            \<and> (\<forall>r\<in>set new. \<exists>jt\<in>set jts.
                 description r = stringify jt
                 \<and> map_of jt ''max_attempts'' = Some (JNum (max_attempts r))
                 \<and> map_of jt ''time_limit_seconds'' = Some (JNum (time_limit_seconds r))
                 \<and> (parse (stringify jt) = jt \<longrightarrow> payload parse r = jt))
            \<and> ((\<forall>p\<in>set ps. storable p) \<longrightarrow>
                 map description new = map stringify jts
                 \<and> (\<forall>k<length jts. parse (stringify (jts ! k)) = jts ! k \<longrightarrow>
                      payload parse (new ! k) = jts ! k
                      \<and> map_of (payload parse (new ! k)) ''max_attempts''
                          = Some (JNum (max_attempts (new ! k)))
                      \<and> map_of (payload parse (new ! k)) ''time_limit_seconds''
                          = Some (JNum (time_limit_seconds (new ! k)))))"
    by (intro exI [of _ new] conjI) blast+
next
  fix d' i
  assume c: "client_enqueueJob stringify now d params = Some (Inr (d', i))"
  then obtain p where p: "job_params (stringify (rest_of params)) params = Some p"
    and e: "enqueueJob now d p = Inr (d', i)"
    by (auto simp: client_enqueueJob_def)
  from job_params_Some [OF p] have desc: "p_description p = stringify (rest_of params)"
    by simp
  from e have r: "d' = d @ [new_row now d p]"
    by (simp add: enqueueJob_Inr)
  have "description (new_row now d p) = p_description p"
    by (simp add: new_row_def)
  with r desc map_of_rest_of [of params]
  show "\<exists>r. d' = d @ [r]
               \<and> description r = stringify (rest_of params)
               \<and> map_of (rest_of params) ''max_attempts'' = None
               \<and> map_of (rest_of params) ''time_limit_seconds'' = None
               \<and> (parse (stringify (rest_of params)) = rest_of params \<longrightarrow>
                    payload parse r = rest_of params)"
    by (intro exI [of _ "new_row now d p"]) (simp add: payload_def)
qed

theorem follow_up_description_witness:
  "map (follow_up property_names) [hello_job] =
     map Some [\<lparr>p_description = ''name id max_attempts time_limit_seconds '',
                p_time_limit_seconds = 1, p_max_attempts = 10\<rparr>]
   \<and> length [5::int] = length [\<lparr>p_description = ''name id max_attempts time_limit_seconds '',
                p_time_limit_seconds = 1, p_max_attempts = 10\<rparr>]
   \<and> storable \<lparr>p_description = ''name id max_attempts time_limit_seconds '',
                p_time_limit_seconds = 1, p_max_attempts = 10\<rparr>
   \<and> parse_names (property_names hello_job) = hello_job
   \<and> parse_names (property_names (rest_of hello_job)) = rest_of hello_job
   \<and> map description
        (enqueue_new_jobs []
           (zip [5] [\<lparr>p_description = ''name id max_attempts time_limit_seconds '',
                      p_time_limit_seconds = 1, p_max_attempts = 10\<rparr>])) =
       [''name id max_attempts time_limit_seconds '']
   \<and> map (payload parse_names)
        (enqueue_new_jobs []
           (zip [5] [\<lparr>p_description = ''name id max_attempts time_limit_seconds '',
                      p_time_limit_seconds = 1, p_max_attempts = 10\<rparr>])) = [hello_job]
   \<and> client_enqueueJob property_names 5 [] hello_job =
       Some (Inr ([\<lparr>job_id = 1, status = PENDING, description = ''name id '',
                    max_attempts = 10, attempts_remaining = 10, time_limit_seconds = 1,
                    deadline = Some 6, error = None\<rparr>], 1))
   \<and> payload parse_names
        \<lparr>job_id = 1, status = PENDING, description = ''name id '',
         max_attempts = 10, attempts_remaining = 10, time_limit_seconds = 1,
         deadline = Some 6, error = None\<rparr> =
       [(''name'', JStr ''Hello''), (''id'', JNum 1)]"
  using follow_up_description [of property_names "[hello_job]"
      "[\<lparr>p_description = ''name id max_attempts time_limit_seconds '',
                p_time_limit_seconds = 1, p_max_attempts = 10\<rparr>]" "[5]" "[]" parse_names 5 hello_job]
  by (simp add: client_defs run_defs)

end
